theory Spec2Isabelle
  imports Complex_Main "HOL-Library.Sublist" "HOL-Library.Log_Nat"
begin

section \<open>Common ground: strings, numbers and the console\<close>

text \<open>
  The repository is a set of TypeScript and JavaScript teaching snippets. Each snippet is
  embedded on its own. A JavaScript string is modelled as \<^typ>\<open>string\<close>, holding the
  UTF-8 bytes of the source text (an emoji is a few bytes). The console is the list of
  lines printed so far, oldest first.
\<close>

type_synonym console = "string list"

text \<open>
  A number is an IEEE double. The numbers of the snippets hold integers, and an integer is
  given by its value, an \<^typ>\<open>int\<close>. Not every integer is a double: from \<open>2 ^ 53\<close> on only
  every second one is, then every fourth, and so on. \<open>round_to_double m\<close> is the double
  nearest to the integer \<open>m\<close>, the one with the even significand when two are equally
  near (for \<open>m\<close> below \<open>2 ^ 1024\<close> in magnitude; there is no larger finite double).
  \<open>bitlen a\<close> is the number of binary digits of \<open>a\<close>; a double keeps the first 53 of them.
\<close>

definition round_to_double :: "int \<Rightarrow> int" where
  "round_to_double m =
     (let a = \<bar>m\<bar>;
          e = nat (bitlen a - 53);
          q = a div 2 ^ e;
          r = a mod 2 ^ e;
          q' = (if 2 * r > 2 ^ e \<or> (2 * r = 2 ^ e \<and> odd q) then q + 1 else q)
      in sgn m * (q' * 2 ^ e))"

definition is_double :: "int \<Rightarrow> bool" where
  "is_double m = (round_to_double m = m)"

text \<open>\<open>a + b\<close> and \<open>a - b\<close> on numbers: the exact result, rounded to a double.\<close>

definition number_add :: "int \<Rightarrow> int \<Rightarrow> int" where
  "number_add a b = round_to_double (a + b)"

definition number_sub :: "int \<Rightarrow> int \<Rightarrow> int" where
  "number_sub a b = round_to_double (a - b)"

text \<open>\<open>n++\<close> stores \<open>n + 1\<close> in \<open>n\<close>; the value of the expression is the old \<open>n\<close>.\<close>

definition increment :: "int \<Rightarrow> int" where
  "increment n = number_add n 1"

text \<open>
  \<open>`${n}`\<close> for a number \<open>n\<close> that holds an integer: the decimal digits, with a leading
  minus sign for a negative value. JavaScript prints an integer so up to \<open>2 ^ 53\<close> in
  magnitude; a larger one it prints with the fewest digits that read back as the same
  double. The statements below read the digits of small numbers only.
\<close>

definition digit_char :: "nat \<Rightarrow> char" where
  "digit_char d = ''0123456789'' ! d"

fun digits :: "nat \<Rightarrow> string" where
  "digits n = (if n < 10 then [digit_char n] else digits (n div 10) @ [digit_char (n mod 10)])"

declare digits.simps [simp del]

definition number_to_string :: "int \<Rightarrow> string" where
  "number_to_string n = (if n < 0 then CHR ''-'' # digits (nat (- n)) else digits (nat n))"

section \<open>The Developer class\<close>

text \<open>The calls a client can make on a Developer object.\<close>

datatype call = DrinkCoffee | Code

subsection \<open>Developer in oop.ts\<close>

record developer_ts =
  name :: string
  caffeineLevels :: int

definition new_developer_ts :: "string \<Rightarrow> developer_ts" where
  "new_developer_ts n = \<lparr>name = n, caffeineLevels = 0\<rparr>"

definition drinkCoffee_ts :: "developer_ts \<Rightarrow> developer_ts \<times> console" where
  "drinkCoffee_ts d =
     (let d' = d\<lparr>caffeineLevels := number_add (caffeineLevels d) 2\<rparr>
      in (d', [name d' @ '' drinks coffee and their new caffeine level is: ''
                 @ number_to_string (caffeineLevels d')]))"

text \<open>The condition of the \<open>if\<close> in \<open>code()\<close>: the success branch is taken when it holds.\<close>

definition can_code_ts :: "developer_ts \<Rightarrow> bool" where
  "can_code_ts d = (caffeineLevels d > 10)"

definition code_ts :: "developer_ts \<Rightarrow> developer_ts \<times> console" where
  "code_ts d =
     (if can_code_ts d
      then (d\<lparr>caffeineLevels := number_sub (caffeineLevels d) 10\<rparr>, [name d @ '' is coding like a pro''])
      else (d, [name d @ '' needs coffee first'']))"

subsection \<open>Developer in the OOP guide (first copy)\<close>

record developer =
  name :: string
  caffeineLevel :: int

definition laptop :: string where
  "laptop = [CHR 0xF0, CHR 0x9F, CHR 0x92, CHR 0xBB]"

definition hot_beverage :: string where
  "hot_beverage = [CHR 0xE2, CHR 0x98, CHR 0x95]"

definition new_developer :: "string \<Rightarrow> developer" where
  "new_developer n = \<lparr>name = n, caffeineLevel = 0\<rparr>"

definition drinkCoffee :: "developer \<Rightarrow> developer \<times> console" where
  "drinkCoffee d =
     (let d' = d\<lparr>caffeineLevel := number_add (caffeineLevel d) 20\<rparr>
      in (d', [name d' @ '' drinks coffee. Caffeine level: ''
                 @ number_to_string (caffeineLevel d')]))"

definition can_code :: "developer \<Rightarrow> bool" where
  "can_code d = (caffeineLevel d > 0)"

definition code :: "developer \<Rightarrow> developer \<times> console" where
  "code d =
     (if can_code d
      then (d\<lparr>caffeineLevel := number_sub (caffeineLevel d) 10\<rparr>,
            [name d @ '' is coding like a machine! '' @ laptop])
      else (d, [name d @ '' needs coffee first... '' @ hot_beverage]))"

subsection \<open>Developer in the OOP guide (second copy, further down the same file)\<close>

text \<open>
  The second copy of the guide has the same class with the same numbers. Its two emoji
  were stored after a wrong re-encoding, so the printed bytes differ from the first copy.
\<close>

record developer_dup =
  name :: string
  caffeineLevel :: int

definition laptop_dup :: string where
  "laptop_dup = [CHR 0xC4, CHR 0x9F, CHR 0xC5, CHR 0xB8, CHR 0xE2, CHR 0x80, CHR 0x99, CHR 0xC2, CHR 0xBB]"

definition hot_beverage_dup :: string where
  "hot_beverage_dup = [CHR 0xC3, CHR 0xA2, CHR 0xCB, CHR 0x9C, CHR 0xE2, CHR 0x80, CHR 0xA2]"

definition new_developer_dup :: "string \<Rightarrow> developer_dup" where
  "new_developer_dup n = \<lparr>name = n, caffeineLevel = 0\<rparr>"

definition drinkCoffee_dup :: "developer_dup \<Rightarrow> developer_dup \<times> console" where
  "drinkCoffee_dup d =
     (let d' = d\<lparr>caffeineLevel := number_add (caffeineLevel d) 20\<rparr>
      in (d', [name d' @ '' drinks coffee. Caffeine level: ''
                 @ number_to_string (caffeineLevel d')]))"

definition can_code_dup :: "developer_dup \<Rightarrow> bool" where
  "can_code_dup d = (caffeineLevel d > 0)"

definition code_dup :: "developer_dup \<Rightarrow> developer_dup \<times> console" where
  "code_dup d =
     (if can_code_dup d
      then (d\<lparr>caffeineLevel := number_sub (caffeineLevel d) 10\<rparr>,
            [name d @ '' is coding like a machine! '' @ laptop_dup])
      else (d, [name d @ '' needs coffee first... '' @ hot_beverage_dup]))"

subsection \<open>Running a sequence of calls\<close>

text \<open>
  \<open>run\<close> performs the calls from left to right on one object and collects what is printed.
  \<open>branches\<close> records, for each call of \<open>code()\<close>, whether the success branch was taken.
\<close>

definition perform_ts :: "call \<Rightarrow> developer_ts \<Rightarrow> developer_ts \<times> console" where
  "perform_ts c d = (case c of DrinkCoffee \<Rightarrow> drinkCoffee_ts d | Code \<Rightarrow> code_ts d)"

fun run_ts :: "call list \<Rightarrow> developer_ts \<Rightarrow> developer_ts \<times> console" where
  "run_ts [] d = (d, [])"
| "run_ts (c # cs) d =
     (let (d', out) = perform_ts c d; (d'', out') = run_ts cs d' in (d'', out @ out'))"

fun branches_ts :: "call list \<Rightarrow> developer_ts \<Rightarrow> bool list" where
  "branches_ts [] d = []"
| "branches_ts (c # cs) d =
     (case c of Code \<Rightarrow> [can_code_ts d] | DrinkCoffee \<Rightarrow> []) @ branches_ts cs (fst (perform_ts c d))"

definition perform :: "call \<Rightarrow> developer \<Rightarrow> developer \<times> console" where
  "perform c d = (case c of DrinkCoffee \<Rightarrow> drinkCoffee d | Code \<Rightarrow> code d)"

fun run :: "call list \<Rightarrow> developer \<Rightarrow> developer \<times> console" where
  "run [] d = (d, [])"
| "run (c # cs) d =
     (let (d', out) = perform c d; (d'', out') = run cs d' in (d'', out @ out'))"

fun branches :: "call list \<Rightarrow> developer \<Rightarrow> bool list" where
  "branches [] d = []"
| "branches (c # cs) d =
     (case c of Code \<Rightarrow> [can_code d] | DrinkCoffee \<Rightarrow> []) @ branches cs (fst (perform c d))"

definition perform_dup :: "call \<Rightarrow> developer_dup \<Rightarrow> developer_dup \<times> console" where
  "perform_dup c d = (case c of DrinkCoffee \<Rightarrow> drinkCoffee_dup d | Code \<Rightarrow> code_dup d)"

fun run_dup :: "call list \<Rightarrow> developer_dup \<Rightarrow> developer_dup \<times> console" where
  "run_dup [] d = (d, [])"
| "run_dup (c # cs) d =
     (let (d', out) = perform_dup c d; (d'', out') = run_dup cs d' in (d'', out @ out'))"

fun branches_dup :: "call list \<Rightarrow> developer_dup \<Rightarrow> bool list" where
  "branches_dup [] d = []"
| "branches_dup (c # cs) d =
     (case c of Code \<Rightarrow> [can_code_dup d] | DrinkCoffee \<Rightarrow> [])
       @ branches_dup cs (fst (perform_dup c d))"

text \<open>
  The demo under the first copy of the guide:
  \<^verbatim>\<open>const junior = new Developer("Alice"); junior.drinkCoffee(); junior.code();\<close>
\<close>

definition developer_demo :: "developer \<times> console" where
  "developer_demo = run [DrinkCoffee, Code] (new_developer ''Alice'')"

section \<open>The GitRepository class\<close>

text \<open>
  The class appears in oop.ts and in the OOP guide. The two differ in the printed text only
  (the guide starts its lines with an emoji and writes \<open>Pushed\<close> with a capital).
\<close>

record git_repository =
  secretToken :: string
  repoName :: string
  commits :: int

definition new_git_repository :: "string \<Rightarrow> string \<Rightarrow> git_repository" where
  "new_git_repository rn token = \<lparr>secretToken = token, repoName = rn, commits = 0\<rparr>"

definition dquote :: string where
  "dquote = [CHR 0x22]"

subsection \<open>oop.ts\<close>

definition authenticate_ts :: "git_repository \<Rightarrow> bool \<times> console" where
  "authenticate_ts r = (length (secretToken r) > 0, [''Authenticating using secret token....''])"

definition pushed_prefix_ts :: string where
  "pushed_prefix_ts = ''pushed: '' @ dquote"

definition push_ts :: "git_repository \<Rightarrow> string \<Rightarrow> git_repository \<times> console" where
  "push_ts r message =
     (let (authenticated, out) = authenticate_ts r
      in if authenticated
         then (let r' = r\<lparr>commits := increment (commits r)\<rparr>
               in (r', out @ [pushed_prefix_ts @ message @ dquote @ '' (Total commits: ''
                                @ number_to_string (commits r') @ '')'']))
         else (r, out))"

subsection \<open>The OOP guide\<close>

definition lock_emoji :: string where
  "lock_emoji = [CHR 0xF0, CHR 0x9F, CHR 0x94, CHR 0x90]"

definition check_mark :: string where
  "check_mark = [CHR 0xE2, CHR 0x9C, CHR 0x85]"

definition authenticate :: "git_repository \<Rightarrow> bool \<times> console" where
  "authenticate r =
     (length (secretToken r) > 0, [lock_emoji @ '' Authenticating with secret token...''])"

definition pushed_prefix :: string where
  "pushed_prefix = check_mark @ '' Pushed: '' @ dquote"

definition push :: "git_repository \<Rightarrow> string \<Rightarrow> git_repository \<times> console" where
  "push r message =
     (let (authenticated, out) = authenticate r
      in if authenticated
         then (let r' = r\<lparr>commits := increment (commits r)\<rparr>
               in (r', out @ [pushed_prefix @ message @ dquote @ '' (Total commits: ''
                                @ number_to_string (commits r') @ '')'']))
         else (r, out))"

text \<open>A line of the console is a pushed-confirmation line when it starts as the template does.\<close>

definition is_pushed_line_ts :: "string \<Rightarrow> bool" where
  "is_pushed_line_ts l = prefix pushed_prefix_ts l"

definition is_pushed_line :: "string \<Rightarrow> bool" where
  "is_pushed_line l = prefix pushed_prefix l"

section \<open>JavaScript values\<close>

text \<open>
  The values a variable can hold at run time, as far as strict equality and truthiness
  tell them apart: \<open>JNumber r\<close> is a finite number other than \<open>-0\<close>, given by its exact
  value; \<open>JInfinity True\<close> is \<open>Infinity\<close> and \<open>JInfinity False\<close> is \<open>-Infinity\<close>; an object
  (also an array or a function) is the address it lives at.
\<close>

datatype jsval =
    JUndefined
  | JNull
  | JBoolean bool
  | JNaN
  | JNegZero
  | JInfinity bool
  | JNumber rat
  | JString string
  | JObject nat

text \<open>
  \<open>a === b\<close>: \<open>NaN\<close> is equal to nothing, not even to itself; \<open>+0\<close> and \<open>-0\<close> are equal;
  any other two values are equal when they are the same value (objects: the same address).
\<close>

definition strict_eq :: "jsval \<Rightarrow> jsval \<Rightarrow> bool" where
  "strict_eq a b =
     (a \<noteq> JNaN \<and> b \<noteq> JNaN \<and>
      (a = b \<or> (a = JNegZero \<and> b = JNumber 0) \<or> (a = JNumber 0 \<and> b = JNegZero)))"

text \<open>The value of \<open>a\<close> as the condition of an \<open>if\<close>.\<close>

fun truthy :: "jsval \<Rightarrow> bool" where
  "truthy JUndefined = False"
| "truthy JNull = False"
| "truthy (JBoolean b) = b"
| "truthy JNaN = False"
| "truthy JNegZero = False"
| "truthy (JInfinity _) = True"
| "truthy (JNumber r) = (r \<noteq> 0)"
| "truthy (JString s) = (s \<noteq> [])"
| "truthy (JObject _) = True"

section \<open>Promises\<close>

text \<open>
  A promise is modelled by the way it has settled once its timer has fired. The time it
  takes is not modelled. A handler may print, so \<open>then\<close> and \<open>catch\<close> pass the console
  along; a handler that returns a plain value returns a promise fulfilled with it.
\<close>

datatype ('e, 'a) promise = Fulfilled 'a | Rejected 'e

datatype 'v console_call = ConsoleLog "'v list" | ConsoleError "'v list"

definition then_promise ::
  "('e, 'a) promise \<times> 's \<Rightarrow> ('a \<Rightarrow> 's \<Rightarrow> ('e, 'b) promise \<times> 's) \<Rightarrow> ('e, 'b) promise \<times> 's" where
  "then_promise p on_fulfilled =
     (case p of (Fulfilled v, s) \<Rightarrow> on_fulfilled v s | (Rejected e, s) \<Rightarrow> (Rejected e, s))"

definition catch_promise ::
  "('e, 'a) promise \<times> 's \<Rightarrow> ('e \<Rightarrow> 's \<Rightarrow> ('e, 'a) promise \<times> 's) \<Rightarrow> ('e, 'a) promise \<times> 's" where
  "catch_promise p on_rejected =
     (case p of (Fulfilled v, s) \<Rightarrow> (Fulfilled v, s) | (Rejected e, s) \<Rightarrow> on_rejected e s)"

subsection \<open>fetchUser in es6\_demo.js\<close>

record user =
  id_val :: jsval
  name :: string

text \<open>
  The condition of the \<open>if\<close> is the assignment \<open>user_id = usersId\<close>: it stores \<open>usersId\<close>
  in \<open>user_id\<close> and its value is the value stored. The second binding of the \<open>let\<close>
  below is that assignment.
\<close>

definition fetchUser :: "jsval \<Rightarrow> (string, user) promise" where
  "fetchUser user_id =
     (let usersId = JNumber 1;
          user_id = usersId
      in if truthy user_id
         then Fulfilled \<lparr>id_val = user_id, name = ''Tiff''\<rparr>
         else Rejected ''Failed to fetch user'')"

text \<open>
  \<^verbatim>\<open>fetchUser(24).then(user => console.log(user))
      .catch(error => { console.error('Error found is:', error) })\<close>
\<close>

definition fetchUser_errors_demo ::
  "(string + user) console_call list \<Rightarrow> (string, unit) promise \<times> (string + user) console_call list" where
  "fetchUser_errors_demo console0 =
     catch_promise
       (then_promise (fetchUser (JNumber 24), console0)
          (\<lambda>user c. (Fulfilled (), c @ [ConsoleLog [Inr user]])))
       (\<lambda>error c. (Fulfilled (), c @ [ConsoleError [Inl ''Error found is:'', Inl error]]))"

subsection \<open>The chain of step1, step2 and step3 in the ES6 guide\<close>

definition step1 :: "(string, string) promise" where
  "step1 = Fulfilled ''Step 1 completed''"

definition step2 :: "string \<Rightarrow> (string, string) promise" where
  "step2 previousResult = Fulfilled (previousResult @ '' -> Step 2 completed'')"

definition step3 :: "string \<Rightarrow> (string, string) promise" where
  "step3 previousResult = Fulfilled (previousResult @ '' -> Step 3 completed'')"

text \<open>The chain up to the promise that the last \<open>then\<close> handler waits for.\<close>

definition chain_steps ::
  "string console_call list \<Rightarrow> (string, string) promise \<times> string console_call list" where
  "chain_steps console0 =
     then_promise
       (then_promise (step1, console0)
          (\<lambda>result1 c. (step2 result1, c @ [ConsoleLog [result1]])))
       (\<lambda>result2 c. (step3 result2, c @ [ConsoleLog [result2]]))"

text \<open>The whole chain, with its last \<open>then\<close> and its \<open>catch\<close>.\<close>

definition chain ::
  "string console_call list \<Rightarrow> (string, unit) promise \<times> string console_call list" where
  "chain console0 =
     catch_promise
       (then_promise (chain_steps console0)
          (\<lambda>finalResult c. (Fulfilled (), c @ [ConsoleLog [finalResult]])))
       (\<lambda>error c. (Fulfilled (), c @ [ConsoleError [''Error in chain:'', error]]))"

definition is_error_call :: "'v console_call \<Rightarrow> bool" where
  "is_error_call e = (case e of ConsoleError _ \<Rightarrow> True | ConsoleLog _ \<Rightarrow> False)"

section \<open>The generic class DataStorage\<close>

text \<open>
  Arrays are objects: the private field \<open>data\<close> holds the address of an array, and two
  variables may hold the same address. The heap maps each address to the elements of the
  array that lives there; \<open>fresh\<close> is the next unused address. \<open>push\<close> changes the array in
  place; \<open>filter\<close> and the spread \<open>[...a]\<close> build a new array at a fresh address.
\<close>

record heap =
  cells :: "nat \<Rightarrow> jsval list"
  fresh :: nat

record data_storage =
  data :: nat

type_synonym storage_state = "data_storage \<times> heap"

definition alloc :: "jsval list \<Rightarrow> heap \<Rightarrow> nat \<times> heap" where
  "alloc xs h = (fresh h, h\<lparr>cells := (cells h)(fresh h := xs), fresh := Suc (fresh h)\<rparr>)"

definition new_DataStorage :: "heap \<Rightarrow> storage_state" where
  "new_DataStorage h = (let (a, h') = alloc [] h in (\<lparr>data = a\<rparr>, h'))"

definition addItem :: "jsval \<Rightarrow> storage_state \<Rightarrow> storage_state" where
  "addItem item s =
     (case s of (this, h) \<Rightarrow>
        (this, h\<lparr>cells := (cells h)(data this := cells h (data this) @ [item])\<rparr>))"

definition removeItem :: "jsval \<Rightarrow> storage_state \<Rightarrow> storage_state" where
  "removeItem item s =
     (case s of (this, h) \<Rightarrow>
        (let (a, h') = alloc (filter (\<lambda>i. \<not> strict_eq i item) (cells h (data this))) h
         in (this\<lparr>data := a\<rparr>, h')))"

text \<open>\<open>getItems\<close> returns the address of the array it has built, and the state after the call.\<close>

definition getItems :: "storage_state \<Rightarrow> nat \<times> storage_state" where
  "getItems s =
     (case s of (this, h) \<Rightarrow>
        (let (a, h') = alloc (cells h (data this)) h in (a, (this, h'))))"

text \<open>The elements of the array that \<open>getItems\<close> returns, read when it returns.\<close>

definition getItems_value :: "storage_state \<Rightarrow> jsval list" where
  "getItems_value s = (case getItems s of (a, (this, h')) \<Rightarrow> cells h' a)"

text \<open>A client that holds the address \<open>a\<close> of an array changes it in place to hold \<open>ys\<close>.\<close>

definition mutate_array :: "nat \<Rightarrow> jsval list \<Rightarrow> storage_state \<Rightarrow> storage_state" where
  "mutate_array a ys s = (case s of (this, h) \<Rightarrow> (this, h\<lparr>cells := (cells h)(a := ys)\<rparr>))"

text \<open>
  Later calls on the storage, and what a client sees of them: the elements returned by each
  \<open>getItems\<close>, in order, and the elements a last \<open>getItems\<close> returns.
\<close>

datatype storage_call = AddItem jsval | RemoveItem jsval | GetItems

fun observe :: "storage_call list \<Rightarrow> storage_state \<Rightarrow> jsval list list" where
  "observe [] s = [getItems_value s]"
| "observe (AddItem x # cs) s = observe cs (addItem x s)"
| "observe (RemoveItem x # cs) s = observe cs (removeItem x s)"
| "observe (GetItems # cs) s = getItems_value s # observe cs (snd (getItems s))"

text \<open>The field \<open>data\<close> holds an address that is in use.\<close>

definition storage_ok :: "storage_state \<Rightarrow> bool" where
  "storage_ok s = (case s of (this, h) \<Rightarrow> data this < fresh h)"

definition empty_heap :: heap where
  "empty_heap = \<lparr>cells = (\<lambda>a. []), fresh = 0\<rparr>"

text \<open>
  A client program: calls on the storage, and writes into the arrays that \<open>getItems\<close> has
  returned, at any moment and in any number. \<open>Write k ys\<close> changes the array returned by
  call number \<open>k\<close> of \<open>getItems\<close> (counted from 0) to hold \<open>ys\<close>; before that call has
  happened there is no such array to write to. \<open>observe_client arrays steps s\<close> runs the
  program, where \<open>arrays\<close> are the addresses returned so far, and gives what \<open>observe\<close>
  gives for the calls.
\<close>

datatype client_step = Call storage_call | Write nat "jsval list"

fun observe_client :: "nat list \<Rightarrow> client_step list \<Rightarrow> storage_state \<Rightarrow> jsval list list" where
  "observe_client arrays [] s = [getItems_value s]"
| "observe_client arrays (Call (AddItem x) # steps) s = observe_client arrays steps (addItem x s)"
| "observe_client arrays (Call (RemoveItem x) # steps) s =
     observe_client arrays steps (removeItem x s)"
| "observe_client arrays (Call GetItems # steps) s =
     getItems_value s # observe_client (arrays @ [fst (getItems s)]) steps (snd (getItems s))"
| "observe_client arrays (Write k ys # steps) s =
     observe_client arrays steps
       (if k < length arrays then mutate_array (arrays ! k) ys s else s)"

text \<open>The calls of a client program, without its writes.\<close>

fun calls_of :: "client_step list \<Rightarrow> storage_call list" where
  "calls_of [] = []"
| "calls_of (Call c # steps) = c # calls_of steps"
| "calls_of (Write k ys # steps) = calls_of steps"

section \<open>DataProcessor.fetchData in the ES6 guide\<close>

text \<open>
  \<open>fetch\<close> and \<open>JSON.stringify\<close> belong to the host, so they are parameters. The answer of
  the network may change from one request to the next: \<open>fetch\<close> takes the number of
  requests sent before. \<open>stringify\<close> gives \<open>None\<close> when \<open>JSON.stringify\<close> throws.
\<close>

record request =
  target :: string
  http_method :: string
  headers :: "(string \<times> string) list"
  body :: string

record 'd response =
  ok :: bool
  status :: int
  statusText :: string
  json :: "string + 'd"

record ('p, 'd) host =
  stringify :: "'p \<Rightarrow> string option"
  fetch :: "nat \<Rightarrow> request \<Rightarrow> string + 'd response"
  empty_object :: 'p















section \<open>createRangeIterator in the ES6 guide\<close>

text \<open>
  \<open>start\<close>, \<open>end\<close> and \<open>current\<close> are numbers. The closure of the iterator holds \<open>current\<close>
  and \<open>end\<close>.
\<close>

record range_iterator =
  current :: int
  end_bound :: int

text \<open>The object \<open>next()\<close> returns: \<open>{ value: v, done: false }\<close> or \<open>{ done: true }\<close>.\<close>

datatype iter_result = IterResult "int option" bool

definition createRangeIterator :: "int \<Rightarrow> int \<Rightarrow> range_iterator" where
  "createRangeIterator start end_arg = \<lparr>current = start, end_bound = end_arg\<rparr>"

definition iterator_next :: "range_iterator \<Rightarrow> iter_result \<times> range_iterator" where
  "iterator_next it =
     (if current it < end_bound it
      then (IterResult (Some (current it)) False, it\<lparr>current := increment (current it)\<rparr>)
      else (IterResult None True, it))"

text \<open>The results of \<open>n\<close> successive calls of \<open>next()\<close>.\<close>

fun nexts :: "nat \<Rightarrow> range_iterator \<Rightarrow> iter_result list" where
  "nexts 0 it = []"
| "nexts (Suc n) it = (case iterator_next it of (r, it') \<Rightarrow> r # nexts n it')"

section \<open>Invariants and relations used in the proofs\<close>

text \<open>
  The level of the oop.ts Developer is an even number from 0 to \<open>2 ^ 54\<close>, where adding 2
  no longer changes it.
\<close>

definition level_ts_ok :: "developer_ts \<Rightarrow> bool" where
  "level_ts_ok t = (even (caffeineLevels t) \<and> 0 \<le> caffeineLevels t \<and> caffeineLevels t \<le> 2 ^ 54)"

text \<open>The level of a guide Developer is not negative and a multiple of ten.\<close>

definition level_ok :: "developer \<Rightarrow> bool" where
  "level_ok d = (0 \<le> developer.caffeineLevel d \<and> 10 dvd developer.caffeineLevel d)"

text \<open>The two copies of the guide hold the same level.\<close>

definition same_level :: "developer \<Rightarrow> developer_dup \<Rightarrow> bool" where
  "same_level d d' = (developer_dup.caffeineLevel d' = developer.caffeineLevel d)"

text \<open>
  After the same calls, the guide Developer is above \<open>-10\<close>, and whenever the oop.ts
  Developer is above its threshold of 10, the guide Developer has at least four times
  what the oop.ts Developer has, less 43: a positive level.
\<close>

definition guide_ahead :: "developer_ts \<Rightarrow> developer \<Rightarrow> bool" where
  "guide_ahead t d =
     (level_ts_ok t \<and> - 10 < developer.caffeineLevel d
      \<and> (10 < caffeineLevels t \<longrightarrow> 4 * caffeineLevels t - 43 \<le> developer.caffeineLevel d))"

text \<open>
  Two states of a storage that differ at most in the arrays handed out to the client: these
  are in use, and none of them is the array of the field \<open>data\<close>.
\<close>

definition agree_outside :: "nat list \<Rightarrow> storage_state \<Rightarrow> storage_state \<Rightarrow> bool" where
  "agree_outside arrays s s' =
     (fst s = fst s' \<and> fresh (snd s) = fresh (snd s') \<and> data (fst s) < fresh (snd s)
      \<and> data (fst s) \<notin> set arrays \<and> (\<forall>a \<in> set arrays. a < fresh (snd s))
      \<and> (\<forall>b. b \<notin> set arrays \<longrightarrow> cells (snd s) b = cells (snd s') b))"

text \<open>The two shapes of the object that \<open>next()\<close> returns.\<close>

definition yields :: "int \<Rightarrow> iter_result" where
  "yields v = IterResult (Some v) False"

definition finished :: iter_result where
  "finished = IterResult None True"

section \<open>Rounding to a double: results\<close>

lemma round_to_double_exact:
  assumes "2 ^ nat (bitlen \<bar>m\<bar> - 53) dvd m"
  shows "round_to_double m = m"
proof -
  let ?e = "nat (bitlen \<bar>m\<bar> - 53)"
  from assms have d: "(2::int) ^ ?e dvd \<bar>m\<bar>" by simp
  then have r: "\<bar>m\<bar> mod 2 ^ ?e = 0" by (simp add: dvd_eq_mod_eq_0)
  from d have q: "\<bar>m\<bar> div 2 ^ ?e * 2 ^ ?e = \<bar>m\<bar>" by (rule dvd_div_mult_self)
  have p: "(0::int) < 2 ^ ?e" by simp
  show ?thesis
    unfolding round_to_double_def Let_def r using q p
    by (simp add: mult_sgn_abs)
qed

lemma round_to_double_small: "\<bar>m\<bar> < 2 ^ 53 \<Longrightarrow> round_to_double m = m"
proof (rule round_to_double_exact)
  assume "\<bar>m\<bar> < 2 ^ 53"
  then have "bitlen \<bar>m\<bar> \<le> 53" by (simp add: bitlen_le_iff_power)
  then have "nat (bitlen \<bar>m\<bar> - 53) = 0" by simp
  then show "2 ^ nat (bitlen \<bar>m\<bar> - 53) dvd m" by simp
qed

lemma round_to_double_even:
  assumes "even m" and "\<bar>m\<bar> < 2 ^ 54"
  shows "round_to_double m = m"
proof (rule round_to_double_exact)
  from assms(2) have "bitlen \<bar>m\<bar> \<le> 54" by (simp add: bitlen_le_iff_power)
  then have "nat (bitlen \<bar>m\<bar> - 53) = 0 \<or> nat (bitlen \<bar>m\<bar> - 53) = 1" by linarith
  with assms(1) show "2 ^ nat (bitlen \<bar>m\<bar> - 53) dvd m" by auto
qed

lemma round_to_double_four:
  assumes "4 dvd m" and "\<bar>m\<bar> < 2 ^ 55"
  shows "round_to_double m = m"
proof (rule round_to_double_exact)
  from assms(2) have "bitlen \<bar>m\<bar> \<le> 55" by (simp add: bitlen_le_iff_power)
  then have "nat (bitlen \<bar>m\<bar> - 53) \<le> 2" by linarith
  then have "(2::int) ^ nat (bitlen \<bar>m\<bar> - 53) dvd 2 ^ 2" by (rule le_imp_power_dvd)
  with assms(1) show "2 ^ nat (bitlen \<bar>m\<bar> - 53) dvd m" by (simp add: dvd_trans)
qed

lemma pow_le_pos:
  assumes "0 < m"
  shows "(2::int) ^ nat (bitlen m - 53) \<le> m"
proof -
  from assms have b: "2 ^ nat (bitlen m - 1) \<le> m" using bitlen_bounds [of m] by simp
  have "(2::int) ^ nat (bitlen m - 53) \<le> 2 ^ nat (bitlen m - 1)"
    by (rule power_increasing) simp_all
  with b show ?thesis by linarith
qed

text \<open>
  A positive integer is rounded to a positive double, which is off by at most half a step
  of the doubles at this size and which is more than half the integer.
\<close>

lemma round_to_double_pos_parts:
  assumes "0 < m"
  shows "2 * (m - round_to_double m) \<le> 2 ^ nat (bitlen m - 53)"
    and "m < 2 * round_to_double m"
proof -
  define P :: int where "P = 2 ^ nat (bitlen m - 53)"
  define q where "q = m div P"
  define r where "r = m mod P"
  define Q where "Q = q * P"
  have p: "0 < P" by (simp add: P_def)
  have split: "m = Q + r" unfolding Q_def q_def r_def by (rule div_mult_mod_eq [symmetric])
  have r0: "0 \<le> r" and r1: "r < P" using p by (simp_all add: r_def)
  from pow_le_pos [OF assms] have "P div P \<le> q"
    unfolding q_def P_def by (intro zdiv_mono1) simp_all
  then have "1 \<le> q" using p by simp
  then have "1 * P \<le> q * P" using p by (intro mult_right_mono) simp_all
  then have q2: "P \<le> Q" by (simp add: Q_def)
  have rd: "round_to_double m = (if 2 * r > P \<or> (2 * r = P \<and> odd q) then q + 1 else q) * P"
    using assms by (simp add: round_to_double_def Let_def P_def q_def r_def)
  show "2 * (m - round_to_double m) \<le> 2 ^ nat (bitlen m - 53)"
  proof (cases "2 * r > P \<or> (2 * r = P \<and> odd q)")
    case True
    then have "round_to_double m = Q + P" using rd by (simp add: algebra_simps Q_def)
    with split have "m - round_to_double m = r - P" by simp
    with r1 p have "2 * (m - round_to_double m) \<le> P" by simp
    then show ?thesis by (simp add: P_def)
  next
    case False
    then have "round_to_double m = Q" and "2 * r \<le> P" using rd by (auto simp: Q_def)
    with split have "2 * (m - round_to_double m) \<le> P" by simp
    then show ?thesis by (simp add: P_def)
  qed
  show "m < 2 * round_to_double m"
  proof -
    have "q * P \<le> (if 2 * r > P \<or> (2 * r = P \<and> odd q) then q + 1 else q) * P"
      using p by (intro mult_right_mono) simp_all
    then have "Q \<le> round_to_double m" using rd by (simp add: Q_def)
    with split r1 q2 show ?thesis by linarith
  qed
qed

lemma round_to_double_pos: "0 < m \<Longrightarrow> 0 < round_to_double m"
  using round_to_double_pos_parts(2) [of m] by linarith

lemma round_to_double_lower:
  assumes "0 < m"
  shows "(m < 2 ^ 53 \<and> round_to_double m = m)
       \<or> (2 ^ 53 \<le> m \<and> m < 2 ^ 57 \<and> m - 8 \<le> round_to_double m)
       \<or> (2 ^ 57 \<le> m \<and> 2 ^ 56 \<le> round_to_double m)"
proof (cases "m < 2 ^ 53")
  case True
  with assms have "round_to_double m = m" by (intro round_to_double_small) simp
  with True show ?thesis by simp
next
  case big: False
  show ?thesis
  proof (cases "m < 2 ^ 57")
    case True
    then have "bitlen m \<le> 57" by (simp add: bitlen_le_iff_power)
    then have "nat (bitlen m - 53) \<le> 4" by simp
    then have "(2::int) ^ nat (bitlen m - 53) \<le> 2 ^ 4" by (intro power_increasing) simp_all
    with round_to_double_pos_parts(1) [OF assms] have "m - 8 \<le> round_to_double m" by simp
    with True big show ?thesis by simp
  next
    case False
    with round_to_double_pos_parts(2) [OF assms] show ?thesis by simp
  qed
qed

lemma round_to_double_above: "- 10 < m \<Longrightarrow> - 10 < round_to_double m"
proof (cases "0 < m")
  case True
  then show ?thesis using round_to_double_pos [of m] by simp
next
  case False
  assume "- 10 < m"
  with False have "\<bar>m\<bar> < 2 ^ 53" by simp
  then have "round_to_double m = m" by (rule round_to_double_small)
  with \<open>- 10 < m\<close> show ?thesis by simp
qed

lemma round_to_double_pow54: "round_to_double 18014398509481984 = 18014398509481984"
  by code_simp

lemma round_to_double_above_pow54: "round_to_double 18014398509481986 = 18014398509481984"
  by code_simp

lemma round_to_double_pow53: "round_to_double 9007199254740992 = 9007199254740992"
  by code_simp

lemma increment_exact:
  assumes "- (2 ^ 53) \<le> n" and "n < 2 ^ 53"
  shows "increment n = n + 1"
proof (cases "n + 1 = 2 ^ 53")
  case True
  then have "n + 1 = 9007199254740992" by simp
  then show ?thesis by (simp add: increment_def number_add_def round_to_double_pow53)
next
  case False
  with assms have "\<bar>n + 1\<bar> < 2 ^ 53" by simp
  then show ?thesis by (simp add: increment_def number_add_def round_to_double_small)
qed

lemma increment_pow53: "increment 9007199254740992 = 9007199254740992"
  by code_simp

section \<open>The Developer class: results\<close>

subsection \<open>The level of the oop.ts Developer\<close>

lemma even_below_pow54:
  assumes "even (t::int)" and "t < 2 ^ 54"
  shows "t + 2 \<le> 2 ^ 54"
proof -
  from assms(1) obtain k where k: "t = 2 * k" by (elim evenE)
  with assms(2) have "2 * k < 2 * 9007199254740992" by simp
  then have "k < 9007199254740992" by simp
  then have "2 * k + 2 \<le> 2 * 9007199254740992" by simp
  with k show ?thesis by simp
qed

lemma add2_ts:
  assumes "even t" and "0 \<le> t" and "t \<le> 2 ^ 54"
  shows "number_add t 2 = (if t < 2 ^ 54 then t + 2 else t)"
proof (cases "t < 2 ^ 54")
  case False
  with assms(3) have "t + 2 = 18014398509481986" by simp
  with False show ?thesis by (simp add: number_add_def round_to_double_above_pow54)
next
  case True
  show ?thesis
  proof (cases "t + 2 = 2 ^ 54")
    case top: True
    then have "t + 2 = 18014398509481984" by simp
    with True show ?thesis by (simp add: number_add_def round_to_double_pow54)
  next
    case False
    from even_below_pow54 [OF assms(1) True] False have "t + 2 < 2 ^ 54" by simp
    with assms(2) have "\<bar>t + 2\<bar> < 2 ^ 54" by simp
    moreover from assms(1) have "even (t + 2)" by simp
    ultimately have "round_to_double (t + 2) = t + 2" by (intro round_to_double_even)
    with True show ?thesis by (simp add: number_add_def)
  qed
qed

lemma sub10_ts:
  assumes "even t" and "10 < t" and "t \<le> 2 ^ 54"
  shows "number_sub t 10 = t - 10"
proof -
  from assms(2,3) have "\<bar>t - 10\<bar> < 2 ^ 54" by simp
  moreover from assms(1) have "even (t - 10)" by simp
  ultimately show ?thesis unfolding number_sub_def by (intro round_to_double_even)
qed

lemma perform_ts_ok: "level_ts_ok t \<Longrightarrow> level_ts_ok (fst (perform_ts c t))"
proof (cases c)
  case DrinkCoffee
  assume ok: "level_ts_ok t"
  then have "number_add (caffeineLevels t) 2
      = (if caffeineLevels t < 2 ^ 54 then caffeineLevels t + 2 else caffeineLevels t)"
    by (intro add2_ts) (simp_all add: level_ts_ok_def)
  moreover have "caffeineLevels t < 2 ^ 54 \<longrightarrow> caffeineLevels t + 2 \<le> 2 ^ 54"
    using ok even_below_pow54 [of "caffeineLevels t"] by (simp add: level_ts_ok_def)
  ultimately show ?thesis using ok DrinkCoffee
    by (simp add: level_ts_ok_def perform_ts_def drinkCoffee_ts_def Let_def)
next
  case Code
  assume ok: "level_ts_ok t"
  show ?thesis
  proof (cases "can_code_ts t")
    case True
    with ok have "number_sub (caffeineLevels t) 10 = caffeineLevels t - 10"
      by (intro sub10_ts) (simp_all add: level_ts_ok_def can_code_ts_def)
    with ok True Code show ?thesis
      by (simp add: level_ts_ok_def perform_ts_def code_ts_def can_code_ts_def)
  next
    case False
    with ok Code show ?thesis by (simp add: perform_ts_def code_ts_def)
  qed
qed

lemma run_ts_ok: "level_ts_ok t \<Longrightarrow> level_ts_ok (fst (run_ts cs t))"
proof (induction cs arbitrary: t)
  case Nil
  then show ?case by simp
next
  case (Cons c cs)
  from Cons.prems have "level_ts_ok (fst (perform_ts c t))" by (rule perform_ts_ok)
  then have "level_ts_ok (fst (run_ts cs (fst (perform_ts c t))))" by (rule Cons.IH)
  then show ?case by (simp add: split_beta)
qed

lemma new_developer_ts_ok: "level_ts_ok (new_developer_ts n)"
  by (simp add: level_ts_ok_def new_developer_ts_def)

subsection \<open>The level of the guide Developer\<close>

lemma add20_guide:
  assumes "0 \<le> g" and "10 dvd g" and "g + 20 < 2 ^ 54"
  shows "number_add g 20 = g + 20"
proof -
  from assms(1,3) have "\<bar>g + 20\<bar> < 2 ^ 54" by simp
  moreover from assms(2) have "even (g + 20)" by presburger
  ultimately show ?thesis unfolding number_add_def by (intro round_to_double_even)
qed

lemma sub10_guide:
  assumes "0 < g" and "even g" and "g - 10 < 2 ^ 54"
  shows "number_sub g 10 = g - 10"
proof -
  from assms(1,3) have "\<bar>g - 10\<bar> < 2 ^ 54" by simp
  moreover from assms(2) have "even (g - 10)" by simp
  ultimately show ?thesis unfolding number_sub_def by (intro round_to_double_even)
qed

lemma perform_level_ok:
  assumes "level_ok d"
    and "developer.caffeineLevel d + 20 * int (count_list [c] DrinkCoffee) < 2 ^ 54"
  shows "level_ok (fst (perform c d))
       \<and> developer.caffeineLevel (fst (perform c d))
           \<le> developer.caffeineLevel d + 20 * int (count_list [c] DrinkCoffee)"
proof (cases c)
  case DrinkCoffee
  with assms have "number_add (developer.caffeineLevel d) 20 = developer.caffeineLevel d + 20"
    by (intro add20_guide) (simp_all add: level_ok_def)
  with assms DrinkCoffee show ?thesis
    by (simp add: level_ok_def perform_def drinkCoffee_def Let_def)
next
  case Code
  show ?thesis
  proof (cases "can_code d")
    case True
    with assms(1) have ten: "10 \<le> developer.caffeineLevel d"
      unfolding level_ok_def can_code_def by (auto elim!: dvdE)
    from assms(1) have "even (developer.caffeineLevel d)"
      unfolding level_ok_def by presburger
    with ten assms(2) Code
    have "number_sub (developer.caffeineLevel d) 10 = developer.caffeineLevel d - 10"
      by (intro sub10_guide) simp_all
    with assms(1) ten True Code show ?thesis
      by (simp add: level_ok_def perform_def code_def)
  next
    case False
    with assms Code show ?thesis by (simp add: perform_def code_def)
  qed
qed

lemma run_level_ok:
  assumes "level_ok d"
    and "developer.caffeineLevel d + 20 * int (count_list cs DrinkCoffee) < 2 ^ 54"
  shows "level_ok (fst (run cs d))"
  using assms
proof (induction cs arbitrary: d)
  case Nil
  then show ?case by simp
next
  case (Cons c cs)
  have one: "developer.caffeineLevel d + 20 * int (count_list [c] DrinkCoffee) < 2 ^ 54"
    using Cons.prems(2) by (cases c) simp_all
  note step = perform_level_ok [OF Cons.prems(1) one]
  from step have ok: "level_ok (fst (perform c d))" by simp
  from step Cons.prems(2)
  have "developer.caffeineLevel (fst (perform c d)) + 20 * int (count_list cs DrinkCoffee) < 2 ^ 54"
    by (cases c) simp_all
  with ok have "level_ok (fst (run cs (fst (perform c d))))" by (rule Cons.IH)
  then show ?case by (simp add: split_beta)
qed

lemma new_developer_level_ok: "level_ok (new_developer n)"
  by (simp add: level_ok_def new_developer_def)

lemma perform_level_above:
  assumes "- 10 < developer.caffeineLevel d"
  shows "- 10 < developer.caffeineLevel (fst (perform c d))"
proof (cases c)
  case DrinkCoffee
  from assms have "- 10 < round_to_double (developer.caffeineLevel d + 20)"
    by (intro round_to_double_above) simp
  with DrinkCoffee show ?thesis
    by (simp add: perform_def drinkCoffee_def Let_def number_add_def)
next
  case Code
  show ?thesis
  proof (cases "can_code d")
    case True
    then have "- 10 < round_to_double (developer.caffeineLevel d - 10)"
      by (intro round_to_double_above) (simp add: can_code_def)
    with True Code show ?thesis by (simp add: perform_def code_def number_sub_def)
  next
    case False
    with assms Code show ?thesis by (simp add: perform_def code_def)
  qed
qed

lemma run_level_above:
  "- 10 < developer.caffeineLevel d \<Longrightarrow> - 10 < developer.caffeineLevel (fst (run cs d))"
proof (induction cs arbitrary: d)
  case Nil
  then show ?case by simp
next
  case (Cons c cs)
  from Cons.prems have "- 10 < developer.caffeineLevel (fst (perform c d))"
    by (rule perform_level_above)
  then have "- 10 < developer.caffeineLevel (fst (run cs (fst (perform c d))))"
    by (rule Cons.IH)
  then show ?case by (simp add: split_beta)
qed

subsection \<open>A long run of the guide Developer\<close>

lemma run_append: "fst (run (xs @ ys) d) = fst (run ys (fst (run xs d)))"
  by (induction xs arbitrary: d) (simp_all add: split_beta)

lemma ten_above_pow54:
  assumes "10 dvd (m::int)" and "2 ^ 54 \<le> m"
  shows "18014398509481990 \<le> m"
proof -
  from assms(1) obtain k where k: "m = 10 * k" by (elim dvdE)
  with assms(2) have "10 * 1801439850948198 < 10 * k" by simp
  then have "1801439850948198 < k" by simp
  then have "10 * 1801439850948199 \<le> 10 * k" by simp
  with k show ?thesis by simp
qed

lemma coffee_reaches_pow54:
  assumes "10 dvd g" and "2 ^ 54 \<le> g + 20" and "g < 2 ^ 54"
  shows "2 ^ 54 \<le> number_add g 20"
proof -
  from assms(1) have "10 dvd g + 20" by presburger
  from ten_above_pow54 [OF this assms(2)] have big: "18014398509481990 \<le> g + 20" .
  then have pos: "0 < g + 20" by simp
  from assms(3) have "g + 20 < 2 ^ 55" by simp
  then have "bitlen (g + 20) \<le> 55" by (simp add: bitlen_le_iff_power)
  then have "nat (bitlen (g + 20) - 53) \<le> 2" by simp
  then have "(2::int) ^ nat (bitlen (g + 20) - 53) \<le> 2 ^ 2" by (intro power_increasing) simp_all
  with round_to_double_pos_parts(1) [OF pos] have "g + 20 - 2 \<le> round_to_double (g + 20)" by simp
  with big show ?thesis by (simp add: number_add_def)
qed

lemma perform_level_ok_below:
  assumes "level_ok d" and "developer.caffeineLevel d < 2 ^ 54"
    and "developer.caffeineLevel (fst (perform c d)) < 2 ^ 54"
  shows "level_ok (fst (perform c d))"
proof (cases c)
  case DrinkCoffee
  have "developer.caffeineLevel d + 20 < 2 ^ 54"
  proof (rule ccontr)
    assume "\<not> developer.caffeineLevel d + 20 < 2 ^ 54"
    with assms(1,2) have "2 ^ 54 \<le> number_add (developer.caffeineLevel d) 20"
      by (intro coffee_reaches_pow54) (simp_all add: level_ok_def)
    with assms(3) DrinkCoffee show False
      by (simp add: perform_def drinkCoffee_def Let_def)
  qed
  with assms(1) have "level_ok (fst (perform c d))
       \<and> developer.caffeineLevel (fst (perform c d))
           \<le> developer.caffeineLevel d + 20 * int (count_list [c] DrinkCoffee)"
    using DrinkCoffee by (intro perform_level_ok) simp_all
  then show ?thesis by simp
next
  case Code
  with assms(1,2) have "level_ok (fst (perform c d))
       \<and> developer.caffeineLevel (fst (perform c d))
           \<le> developer.caffeineLevel d + 20 * int (count_list [c] DrinkCoffee)"
    by (intro perform_level_ok) simp_all
  then show ?thesis by simp
qed

lemma run_snoc: "fst (run (cs @ [c]) d) = fst (perform c (fst (run cs d)))"
  by (simp add: run_append split_beta)

lemma run_level_ok_below:
  "level_ok d \<Longrightarrow>
   (\<forall>k\<le>length cs. developer.caffeineLevel (fst (run (take k cs) d)) < 2 ^ 54) \<Longrightarrow>
   level_ok (fst (run cs d))"
proof (induction cs rule: rev_induct)
  case Nil
  then show ?case by simp
next
  case (snoc c cs)
  have "\<forall>k\<le>length cs. developer.caffeineLevel (fst (run (take k cs) d)) < 2 ^ 54"
  proof (intro allI impI)
    fix k assume k: "k \<le> length cs"
    then have "k \<le> length (cs @ [c])" by simp
    with snoc.prems(2) have "developer.caffeineLevel (fst (run (take k (cs @ [c])) d)) < 2 ^ 54"
      by blast
    with k show "developer.caffeineLevel (fst (run (take k cs) d)) < 2 ^ 54" by simp
  qed
  with snoc.prems(1) have ok: "level_ok (fst (run cs d))" by (rule snoc.IH)
  have "length cs \<le> length (cs @ [c])" by simp
  with snoc.prems(2) have "developer.caffeineLevel (fst (run (take (length cs) (cs @ [c])) d)) < 2 ^ 54"
    by blast
  then have before: "developer.caffeineLevel (fst (run cs d)) < 2 ^ 54" by simp
  from snoc.prems(2) have "developer.caffeineLevel (fst (run (take (length (cs @ [c])) (cs @ [c])) d)) < 2 ^ 54"
    by blast
  then have after: "developer.caffeineLevel (fst (perform c (fst (run cs d)))) < 2 ^ 54"
    by (simp add: run_snoc)
  from perform_level_ok_below [OF ok before after] show ?case by (simp add: run_snoc)
qed

lemma run_coffees:
  assumes "0 \<le> developer.caffeineLevel d" and "4 dvd developer.caffeineLevel d"
    and "developer.caffeineLevel d + 20 * int k < 2 ^ 55"
  shows "developer.caffeineLevel (fst (run (replicate k DrinkCoffee) d))
           = developer.caffeineLevel d + 20 * int k"
  using assms
proof (induction k arbitrary: d)
  case 0
  then show ?case by simp
next
  case (Suc k)
  let ?d = "fst (perform DrinkCoffee d)"
  from Suc.prems have "\<bar>developer.caffeineLevel d + 20\<bar> < 2 ^ 55" by simp
  moreover from Suc.prems(2) have "4 dvd developer.caffeineLevel d + 20" by presburger
  ultimately have "round_to_double (developer.caffeineLevel d + 20) = developer.caffeineLevel d + 20"
    by (intro round_to_double_four)
  then have level: "developer.caffeineLevel ?d = developer.caffeineLevel d + 20"
    by (simp add: perform_def drinkCoffee_def Let_def number_add_def)
  from level Suc.prems(1) have a: "0 \<le> developer.caffeineLevel ?d" by simp
  from level Suc.prems(2) have b: "4 dvd developer.caffeineLevel ?d" by presburger
  from level Suc.prems(3) have c: "developer.caffeineLevel ?d + 20 * int k < 2 ^ 55" by simp
  from a b c have "developer.caffeineLevel (fst (run (replicate k DrinkCoffee) ?d))
      = developer.caffeineLevel ?d + 20 * int k"
    by (rule Suc.IH)
  with level show ?case by (simp add: split_beta)
qed

lemma run_codes:
  assumes "even (developer.caffeineLevel d)" and "developer.caffeineLevel d - 10 < 2 ^ 54"
    and "10 * int k < developer.caffeineLevel d + 10"
  shows "developer.caffeineLevel (fst (run (replicate k Code) d))
           = developer.caffeineLevel d - 10 * int k"
  using assms
proof (induction k arbitrary: d)
  case 0
  then show ?case by simp
next
  case (Suc k)
  let ?d = "fst (perform Code d)"
  from Suc.prems(3) have pos: "0 < developer.caffeineLevel d" by simp
  with Suc.prems have "number_sub (developer.caffeineLevel d) 10 = developer.caffeineLevel d - 10"
    by (intro sub10_guide)
  with pos have level: "developer.caffeineLevel ?d = developer.caffeineLevel d - 10"
    by (simp add: perform_def code_def can_code_def)
  with Suc.prems have "even (developer.caffeineLevel ?d)" "developer.caffeineLevel ?d - 10 < 2 ^ 54"
    "10 * int k < developer.caffeineLevel ?d + 10"
    by simp_all
  then have "developer.caffeineLevel (fst (run (replicate k Code) ?d))
      = developer.caffeineLevel ?d - 10 * int k"
    by (rule Suc.IH)
  with level show ?case by (simp add: split_beta)
qed

lemma first_code_rounds: "number_sub 18014398509482000 10 = 18014398509481992"
  by code_simp

text \<open>
  C9, as stated, fails for the guide. \<open>900719925474100\<close> calls of \<open>drinkCoffee\<close> bring the
  level to \<open>18014398509482000\<close>, above \<open>2 ^ 54\<close>, where only every fourth integer is a
  number. The first \<open>code\<close> call gives \<open>18014398509481992\<close> (the double nearest to
  \<open>18014398509481990\<close>), the next ones subtract ten each, down to 2, and the last one, at
  the positive level 2, gives \<open>-8\<close>.
\<close>

theorem caffeine_negative_counterexample:
  "developer.caffeineLevel
     (fst (run (replicate 900719925474100 DrinkCoffee @ Code # replicate 1801439850948200 Code)
            (new_developer ''Alice''))) = - 8"
proof -
  let ?d1 = "fst (run (replicate 900719925474100 DrinkCoffee) (new_developer ''Alice''))"
  have "developer.caffeineLevel ?d1
      = developer.caffeineLevel (new_developer ''Alice'') + 20 * int 900719925474100"
    by (rule run_coffees) (simp_all add: new_developer_def)
  then have l1: "developer.caffeineLevel ?d1 = 18014398509482000"
    by (simp add: new_developer_def)
  let ?d2 = "fst (perform Code ?d1)"
  from l1 have l2: "developer.caffeineLevel ?d2 = 18014398509481992"
    by (simp add: perform_def code_def can_code_def first_code_rounds)
  have "developer.caffeineLevel (fst (run (replicate 1801439850948200 Code) ?d2))
      = developer.caffeineLevel ?d2 - 10 * int 1801439850948200"
    by (rule run_codes) (simp_all add: l2)
  then have "developer.caffeineLevel (fst (run (replicate 1801439850948200 Code) ?d2)) = - 8"
    by (simp add: l2)
  then show ?thesis
    by (simp add: run_append split_beta)
qed

text \<open>
  C9, amended. The level of the oop.ts Developer is never negative: after every finite
  sequence of \<open>drinkCoffee\<close> and \<open>code\<close> calls on a freshly constructed Developer,
  \<open>caffeineLevels\<close> is at least 0. The level of the guide Developer is never negative as
  long as it has stayed below \<open>2 ^ 54\<close>, and so in every sequence with fewer than
  \<open>900719925474100\<close> calls of \<open>drinkCoffee\<close> (20 times their number is below \<open>2 ^ 54\<close>);
  it is above \<open>-10\<close> after every sequence. The level in the middle of a sequence is the
  level at the end of a shorter one, so the statement covers every moment of a run.
\<close>

theorem caffeine_never_negative_bounded:
  "0 \<le> caffeineLevels (fst (run_ts cs (new_developer_ts n)))
   \<and> ((\<forall>k\<le>length cs. developer.caffeineLevel (fst (run (take k cs) (new_developer n))) < 2 ^ 54)
        \<longrightarrow> 0 \<le> developer.caffeineLevel (fst (run cs (new_developer n))))
   \<and> (20 * int (count_list cs DrinkCoffee) < 2 ^ 54
        \<longrightarrow> 0 \<le> developer.caffeineLevel (fst (run cs (new_developer n))))
   \<and> - 10 < developer.caffeineLevel (fst (run cs (new_developer n)))"
proof (intro conjI impI)
  have "level_ts_ok (fst (run_ts cs (new_developer_ts n)))"
    by (rule run_ts_ok) (rule new_developer_ts_ok)
  then show "0 \<le> caffeineLevels (fst (run_ts cs (new_developer_ts n)))"
    by (simp add: level_ts_ok_def)
next
  assume "\<forall>k\<le>length cs. developer.caffeineLevel (fst (run (take k cs) (new_developer n))) < 2 ^ 54"
  with new_developer_level_ok have "level_ok (fst (run cs (new_developer n)))"
    by (rule run_level_ok_below)
  then show "0 \<le> developer.caffeineLevel (fst (run cs (new_developer n)))"
    by (simp add: level_ok_def)
next
  assume "20 * int (count_list cs DrinkCoffee) < 2 ^ 54"
  then have "level_ok (fst (run cs (new_developer n)))"
    by (intro run_level_ok new_developer_level_ok) (simp add: new_developer_def)
  then show "0 \<le> developer.caffeineLevel (fst (run cs (new_developer n)))"
    by (simp add: level_ok_def)
next
  show "- 10 < developer.caffeineLevel (fst (run cs (new_developer n)))"
    by (rule run_level_above) (simp add: new_developer_def)
qed

lemma three_calls_level:
  "developer.caffeineLevel (fst (run [DrinkCoffee, Code, Code] (new_developer ''Alice''))) = 0"
  by code_simp

theorem caffeine_never_negative_bounded_witness:
  "20 * int (count_list [DrinkCoffee, Code, Code] DrinkCoffee) < 2 ^ 54
   \<and> developer.caffeineLevel (fst (run [DrinkCoffee, Code, Code] (new_developer ''Alice''))) = 0
   \<and> 0 \<le> developer.caffeineLevel (fst (run [DrinkCoffee, Code, Code] (new_developer ''Alice'')))"
  using caffeine_never_negative_bounded [of "[DrinkCoffee, Code, Code]" "''Alice''"]
    three_calls_level
  by simp

text \<open>
  C6. The Developer demo of the guide prints the strings of its comments:
  \<open>new Developer("Alice")\<close> followed by \<open>drinkCoffee()\<close> prints
  \<open>Alice drinks coffee. Caffeine level: 20\<close>, and the call of \<open>code()\<close> after it takes the
  success branch and prints \<open>Alice is coding like a machine!\<close> with the laptop emoji.
\<close>

theorem developer_demo_prints:
  "snd developer_demo =
     [''Alice drinks coffee. Caffeine level: 20'', ''Alice is coding like a machine! '' @ laptop]
   \<and> branches [DrinkCoffee, Code] (new_developer ''Alice'') = [True]"
  by code_simp

subsection \<open>The three Developer classes compared\<close>

lemma perform_same_level:
  "same_level d d' \<Longrightarrow> same_level (fst (perform c d)) (fst (perform_dup c d'))"
  by (cases c)
     (simp_all add: same_level_def perform_def perform_dup_def drinkCoffee_def drinkCoffee_dup_def
        code_def code_dup_def can_code_def can_code_dup_def Let_def)

lemma run_same_level:
  "same_level d d' \<Longrightarrow> same_level (fst (run cs d)) (fst (run_dup cs d'))"
proof (induction cs arbitrary: d d')
  case Nil
  then show ?case by simp
next
  case (Cons c cs)
  from Cons.prems have "same_level (fst (perform c d)) (fst (perform_dup c d'))"
    by (rule perform_same_level)
  then have "same_level (fst (run cs (fst (perform c d)))) (fst (run_dup cs (fst (perform_dup c d'))))"
    by (rule Cons.IH)
  then show ?case by (simp add: split_beta)
qed

lemma branches_same_level:
  "same_level d d' \<Longrightarrow> branches_dup cs d' = branches cs d"
proof (induction cs arbitrary: d d')
  case Nil
  then show ?case by simp
next
  case (Cons c cs)
  from Cons.prems have "same_level (fst (perform c d)) (fst (perform_dup c d'))"
    by (rule perform_same_level)
  then have "branches_dup cs (fst (perform_dup c d')) = branches cs (fst (perform c d))"
    by (rule Cons.IH)
  moreover from Cons.prems have "can_code_dup d' = can_code d"
    by (simp add: same_level_def can_code_def can_code_dup_def)
  ultimately show ?case by (cases c) simp_all
qed

lemma guide_ahead_can_code: "guide_ahead t d \<Longrightarrow> can_code_ts t \<Longrightarrow> can_code d"
  by (simp add: guide_ahead_def can_code_ts_def can_code_def)

text \<open>A coffee for both: the guide gains at least 12 where the oop.ts Developer gains 2.\<close>

lemma coffee_guide_ahead:
  assumes "guide_ahead t d"
  shows "guide_ahead (fst (drinkCoffee_ts t)) (fst (drinkCoffee d))"
proof -
  let ?t = "caffeineLevels t" and ?g = "developer.caffeineLevel d"
  from assms have ok: "level_ts_ok t" and above: "- 10 < ?g"
    and ahead: "10 < ?t \<longrightarrow> 4 * ?t - 43 \<le> ?g"
    by (simp_all add: guide_ahead_def)
  have ok': "level_ts_ok (fst (drinkCoffee_ts t))"
    using perform_ts_ok [OF ok, of DrinkCoffee] by (simp add: perform_ts_def)
  from ok have t': "number_add ?t 2 \<le> ?t + 2"
    using add2_ts [of ?t] by (simp add: level_ts_ok_def)
  from ok' have top: "number_add ?t 2 \<le> 2 ^ 54"
    by (simp add: level_ts_ok_def drinkCoffee_ts_def Let_def)
  from above have pos: "0 < ?g + 20" by simp
  from above have above': "- 10 < number_add ?g 20"
    unfolding number_add_def by (intro round_to_double_above) simp
  have "10 < number_add ?t 2 \<longrightarrow> 4 * number_add ?t 2 - 43 \<le> number_add ?g 20"
    using round_to_double_lower [OF pos] t' top above ahead
    unfolding number_add_def [of ?g 20] by auto
  with ok' above' show ?thesis
    by (simp add: guide_ahead_def drinkCoffee_ts_def drinkCoffee_def Let_def)
qed

text \<open>A call of \<open>code\<close> for both: the guide loses at most 18 where the oop.ts Developer loses 10.\<close>

lemma code_guide_ahead:
  assumes "guide_ahead t d"
  shows "guide_ahead (fst (code_ts t)) (fst (code d))"
proof -
  let ?t = "caffeineLevels t" and ?g = "developer.caffeineLevel d"
  from assms have ok: "level_ts_ok t" and above: "- 10 < ?g"
    and ahead: "10 < ?t \<longrightarrow> 4 * ?t - 43 \<le> ?g"
    by (simp_all add: guide_ahead_def)
  have ok': "level_ts_ok (fst (code_ts t))"
    using perform_ts_ok [OF ok, of Code] by (simp add: perform_ts_def)
  show ?thesis
  proof (cases "can_code_ts t")
    case False
    then have t': "fst (code_ts t) = t" by (simp add: code_ts_def)
    from False have low: "\<not> 10 < ?t" by (simp add: can_code_ts_def)
    have "- 10 < developer.caffeineLevel (fst (code d))"
      using perform_level_above [OF above, of Code] by (simp add: perform_def)
    with ok low show ?thesis by (simp add: guide_ahead_def t')
  next
    case True
    then have high: "10 < ?t" by (simp add: can_code_ts_def)
    with ok have t': "caffeineLevels (fst (code_ts t)) = ?t - 10"
      using sub10_ts [of ?t] True by (simp add: level_ts_ok_def code_ts_def)
    from ok have top: "?t \<le> 2 ^ 54" by (simp add: level_ts_ok_def)
    from high ahead have g1: "1 \<le> ?g" by simp
    then have g': "developer.caffeineLevel (fst (code d)) = round_to_double (?g - 10)"
      by (simp add: code_def can_code_def number_sub_def)
    from g1 have above': "- 10 < round_to_double (?g - 10)"
      by (intro round_to_double_above) simp
    have "10 < ?t - 10 \<longrightarrow> 4 * (?t - 10) - 43 \<le> round_to_double (?g - 10)"
    proof
      assume "10 < ?t - 10"
      with ahead have "0 < ?g - 10" by simp
      from round_to_double_lower [OF this] top ahead \<open>10 < ?t - 10\<close>
      show "4 * (?t - 10) - 43 \<le> round_to_double (?g - 10)" by auto
    qed
    with ok' above' show ?thesis by (simp add: guide_ahead_def t' g')
  qed
qed

lemma perform_guide_ahead:
  "guide_ahead t d \<Longrightarrow> guide_ahead (fst (perform_ts c t)) (fst (perform c d))"
  by (cases c) (simp_all add: perform_ts_def perform_def coffee_guide_ahead code_guide_ahead)

lemma branches_guide_ahead:
  "guide_ahead t d \<Longrightarrow> list_all2 (\<lambda>ts g. ts \<longrightarrow> g) (branches_ts cs t) (branches cs d)"
proof (induction cs arbitrary: t d)
  case Nil
  then show ?case by simp
next
  case (Cons c cs)
  from Cons.prems have "guide_ahead (fst (perform_ts c t)) (fst (perform c d))"
    by (rule perform_guide_ahead)
  then have "list_all2 (\<lambda>ts g. ts \<longrightarrow> g)
      (branches_ts cs (fst (perform_ts c t))) (branches cs (fst (perform c d)))"
    by (rule Cons.IH)
  with Cons.prems show ?case
    by (cases c) (simp_all add: guide_ahead_can_code)
qed

text \<open>
  C2, as stated, fails: the Developer of oop.ts and the Developer of the guide are not
  behaviourally equal. After \<open>drinkCoffee(); code()\<close> on a fresh object, oop.ts has level 2
  and took the needs-coffee branch, the guide has level 10 and took the success branch.
\<close>

theorem developer_ts_differs_counterexample:
  "caffeineLevels (fst (run_ts [DrinkCoffee, Code] (new_developer_ts ''Dan'')))
     \<noteq> developer.caffeineLevel (fst (run [DrinkCoffee, Code] (new_developer ''Dan'')))
   \<and> branches_ts [DrinkCoffee, Code] (new_developer_ts ''Dan'')
     \<noteq> branches [DrinkCoffee, Code] (new_developer ''Dan'')"
  by code_simp

text \<open>
  C2, amended. The two copies of the Developer class inside the OOP guide are behaviourally
  equal: from a fresh object, every finite sequence of \<open>drinkCoffee\<close> and \<open>code\<close> calls
  gives the same caffeine level and the same success or needs-coffee branches in both. The
  Developer of oop.ts is a different variant (2 per coffee, coding above 10 only); it agrees
  with the guide in one direction: each call of \<open>code\<close> that succeeds in oop.ts succeeds in
  the guide as well.
\<close>

theorem developer_guide_copies_agree:
  "developer_dup.caffeineLevel (fst (run_dup cs (new_developer_dup n)))
     = developer.caffeineLevel (fst (run cs (new_developer n)))
   \<and> branches_dup cs (new_developer_dup n) = branches cs (new_developer n)
   \<and> list_all2 (\<lambda>ts g. ts \<longrightarrow> g)
       (branches_ts cs (new_developer_ts n)) (branches cs (new_developer n))"
proof -
  have s: "same_level (new_developer n) (new_developer_dup n)"
    by (simp add: same_level_def new_developer_def new_developer_dup_def)
  have g: "guide_ahead (new_developer_ts n) (new_developer n)"
    by (simp add: guide_ahead_def level_ts_ok_def new_developer_ts_def new_developer_def)
  from run_same_level [OF s, of cs] branches_same_level [OF s, of cs]
    branches_guide_ahead [OF g, of cs]
  show ?thesis by (simp add: same_level_def)
qed

lemma six_coffees_branches:
  "branches_ts [DrinkCoffee, DrinkCoffee, DrinkCoffee, DrinkCoffee, DrinkCoffee, DrinkCoffee, Code, Code]
     (new_developer_ts ''Dan'') = [True, False]"
  by code_simp

theorem developer_guide_copies_agree_witness:
  "branches_ts [DrinkCoffee, DrinkCoffee, DrinkCoffee, DrinkCoffee, DrinkCoffee, DrinkCoffee, Code, Code]
     (new_developer_ts ''Dan'') = [True, False]
   \<and> list_all2 (\<lambda>ts g. ts \<longrightarrow> g) [True, False]
       (branches [DrinkCoffee, DrinkCoffee, DrinkCoffee, DrinkCoffee, DrinkCoffee, DrinkCoffee, Code, Code]
          (new_developer ''Dan''))"
proof -
  note agree = developer_guide_copies_agree
    [of "[DrinkCoffee, DrinkCoffee, DrinkCoffee, DrinkCoffee, DrinkCoffee, DrinkCoffee, Code, Code]" "''Dan''"]
  from agree [THEN conjunct2, THEN conjunct2]
  have "list_all2 (\<lambda>ts g. ts \<longrightarrow> g) [True, False]
       (branches [DrinkCoffee, DrinkCoffee, DrinkCoffee, DrinkCoffee, DrinkCoffee, DrinkCoffee, Code, Code]
          (new_developer ''Dan''))"
    unfolding six_coffees_branches .
  with six_coffees_branches show ?thesis by (rule conjI)
qed

section \<open>The GitRepository class: results\<close>

lemma auth_line_ts_not_pushed: "\<not> is_pushed_line_ts ''Authenticating using secret token....''"
  by (simp add: is_pushed_line_ts_def pushed_prefix_ts_def dquote_def)

lemma auth_line_not_pushed:
  "\<not> is_pushed_line (lock_emoji @ '' Authenticating with secret token...'')"
  by (simp add: is_pushed_line_def pushed_prefix_def dquote_def lock_emoji_def check_mark_def)

lemma pushed_line_ts: "is_pushed_line_ts (pushed_prefix_ts @ rest)"
  by (simp add: is_pushed_line_ts_def)

lemma pushed_line: "is_pushed_line (pushed_prefix @ rest)"
  by (simp add: is_pushed_line_def)

lemma push_ts_authenticated:
  "secretToken r \<noteq> [] \<Longrightarrow>
     push_ts r m = (r\<lparr>commits := increment (commits r)\<rparr>,
       [''Authenticating using secret token....'',
        pushed_prefix_ts @ m @ dquote @ '' (Total commits: ''
          @ number_to_string (increment (commits r)) @ '')''])"
  by (simp add: push_ts_def authenticate_ts_def Let_def)

lemma push_ts_rejected:
  "secretToken r = [] \<Longrightarrow> push_ts r m = (r, [''Authenticating using secret token....''])"
  by (simp add: push_ts_def authenticate_ts_def)

lemma push_authenticated:
  "secretToken r \<noteq> [] \<Longrightarrow>
     push r m = (r\<lparr>commits := increment (commits r)\<rparr>,
       [lock_emoji @ '' Authenticating with secret token...'',
        pushed_prefix @ m @ dquote @ '' (Total commits: ''
          @ number_to_string (increment (commits r)) @ '')''])"
  by (simp add: push_def authenticate_def Let_def)

lemma push_rejected:
  "secretToken r = [] \<Longrightarrow> push r m = (r, [lock_emoji @ '' Authenticating with secret token...''])"
  by (simp add: push_def authenticate_def)

text \<open>
  C3, as stated, fails for a repository whose \<open>commits\<close> has reached \<open>2 ^ 53\<close> (the field
  is public in oop.ts): \<open>this.commits++\<close> rounds \<open>2 ^ 53 + 1\<close> back to \<open>2 ^ 53\<close>. With a
  non-empty token, \<open>push\<close> prints the pushed line and leaves \<open>commits\<close> as it was.
\<close>

theorem push_at_pow53_counterexample:
  "is_double 9007199254740992
   \<and> commits (fst (push_ts \<lparr>secretToken = ''1234rtfgvdhwqmjbxc'', repoName = ''my-ts-app'',
                             commits = 9007199254740992\<rparr> ''Fixed the bug'')) = 9007199254740992
   \<and> length (filter is_pushed_line_ts
        (snd (push_ts \<lparr>secretToken = ''1234rtfgvdhwqmjbxc'', repoName = ''my-ts-app'',
                        commits = 9007199254740992\<rparr> ''Fixed the bug''))) = 1"
  by (simp add: push_ts_authenticated pushed_line_ts auth_line_ts_not_pushed increment_pow53
      is_double_def round_to_double_pow53)

text \<open>
  C3, amended. For every GitRepository, in oop.ts and in the guide alike, \<open>push(message)\<close>
  prints a pushed-confirmation line (exactly one) if and only if \<open>secretToken\<close> is a
  non-empty string. With an empty \<open>secretToken\<close> it leaves \<open>commits\<close> and every other field
  unchanged and prints no pushed line. \<open>secretToken\<close> and \<open>repoName\<close> never change, and
  \<open>commits\<close> is greater by one after the call only if the token is non-empty. For every
  repository whose \<open>commits\<close> is an integer from \<open>- 2 ^ 53\<close> to \<open>2 ^ 53 - 1\<close>, \<open>push\<close>
  increments \<open>commits\<close> by exactly one if and only if the token is non-empty.
\<close>

theorem push_iff_token_bounded:
  "length (filter is_pushed_line_ts (snd (push_ts r m))) = (if secretToken r \<noteq> [] then 1 else 0)
   \<and> (secretToken r = [] \<longrightarrow> fst (push_ts r m) = r)
   \<and> secretToken (fst (push_ts r m)) = secretToken r
   \<and> repoName (fst (push_ts r m)) = repoName r
   \<and> (commits (fst (push_ts r m)) = commits r + 1 \<longrightarrow> secretToken r \<noteq> [])
   \<and> (- (2 ^ 53) \<le> commits r \<and> commits r < 2 ^ 53 \<longrightarrow>
        fst (push_ts r m) = (if secretToken r \<noteq> [] then r\<lparr>commits := commits r + 1\<rparr> else r))
   \<and> length (filter is_pushed_line (snd (push r m))) = (if secretToken r \<noteq> [] then 1 else 0)
   \<and> (secretToken r = [] \<longrightarrow> fst (push r m) = r)
   \<and> secretToken (fst (push r m)) = secretToken r
   \<and> repoName (fst (push r m)) = repoName r
   \<and> (commits (fst (push r m)) = commits r + 1 \<longrightarrow> secretToken r \<noteq> [])
   \<and> (- (2 ^ 53) \<le> commits r \<and> commits r < 2 ^ 53 \<longrightarrow>
        fst (push r m) = (if secretToken r \<noteq> [] then r\<lparr>commits := commits r + 1\<rparr> else r))"
proof (cases "secretToken r = []")
  case True
  then show ?thesis
    by (simp add: push_ts_rejected push_rejected auth_line_ts_not_pushed auth_line_not_pushed)
next
  case False
  have "- (2 ^ 53) \<le> commits r \<and> commits r < 2 ^ 53 \<longrightarrow> increment (commits r) = commits r + 1"
    using increment_exact [of "commits r"] by simp
  with False show ?thesis
    by (simp add: push_ts_authenticated push_authenticated auth_line_ts_not_pushed
        auth_line_not_pushed pushed_line_ts pushed_line)
qed

lemma increment_zero: "increment 0 = 1"
  by code_simp

theorem push_iff_token_bounded_witness:
  "- (2 ^ 53) \<le> commits (new_git_repository ''my-ts-app'' ''1234rtfgvdhwqmjbxc'')
   \<and> commits (new_git_repository ''my-ts-app'' ''1234rtfgvdhwqmjbxc'') < 2 ^ 53
   \<and> snd (push_ts (new_git_repository ''my-ts-app'' ''1234rtfgvdhwqmjbxc'') ''Fixed the bug'')
     = [''Authenticating using secret token....'',
        ''pushed: '' @ dquote @ ''Fixed the bug'' @ dquote @ '' (Total commits: 1)'']
   \<and> length (filter is_pushed_line_ts
        (snd (push_ts (new_git_repository ''my-ts-app'' ''1234rtfgvdhwqmjbxc'') ''Fixed the bug''))) = 1
   \<and> commits (fst (push (new_git_repository ''my-awesome-app'' ''ghp_secret123'') ''Fixed the bug'')) = 1
   \<and> fst (push (new_git_repository ''my-awesome-app'' []) ''Fixed the bug'')
       = new_git_repository ''my-awesome-app'' []
   \<and> length (filter is_pushed_line
        (snd (push (new_git_repository ''my-awesome-app'' []) ''Fixed the bug''))) = 0"
  using push_iff_token_bounded [of "new_git_repository ''my-ts-app'' ''1234rtfgvdhwqmjbxc''" "''Fixed the bug''"]
    push_iff_token_bounded [of "new_git_repository ''my-awesome-app'' ''ghp_secret123''" "''Fixed the bug''"]
    push_iff_token_bounded [of "new_git_repository ''my-awesome-app'' []" "''Fixed the bug''"]
  by (simp add: new_git_repository_def push_ts_authenticated pushed_prefix_ts_def increment_zero
      number_to_string_def digits.simps digit_char_def)

section \<open>Promises: results\<close>

lemma fetchUser_always: "fetchUser user_id = Fulfilled \<lparr>id_val = JNumber 1, name = ''Tiff''\<rparr>"
  by (simp add: fetchUser_def)

text \<open>
  C1 says that \<open>fetchUser(user_id)\<close> resolves with \<open>{id: user_id, name: 'Tiff'}\<close> exactly
  when \<open>user_id\<close> is 1 and rejects with \<open>'Failed to fetch user'\<close> otherwise, so that
  \<open>fetchUser(24)\<close> rejects and its \<open>catch\<close> handler runs. The code does not do so: its
  condition assigns instead of comparing. \<open>fetchUser(24)\<close> is fulfilled with
  \<open>{id: 1, name: 'Tiff'}\<close>, the \<open>then\<close> handler prints that object, and the \<open>catch\<close>
  handler does not run.
\<close>

theorem fetchUser_24_is_fulfilled:
  "fetchUser (JNumber 24) = Fulfilled \<lparr>id_val = JNumber 1, name = ''Tiff''\<rparr>
   \<and> fetchUser_errors_demo []
       = (Fulfilled (), [ConsoleLog [Inr \<lparr>id_val = JNumber 1, name = ''Tiff''\<rparr>]])"
  by (simp add: fetchUser_def fetchUser_errors_demo_def then_promise_def catch_promise_def)

text \<open>
  C8. The chain built from \<open>step1\<close>, \<open>step2\<close> and \<open>step3\<close> resolves as narrated:
  \<open>step1()\<close> resolves to \<open>Step 1 completed\<close>; feeding each result into the next step, the
  value that reaches the last \<open>then\<close> handler is
  \<open>Step 1 completed -> Step 2 completed -> Step 3 completed\<close>; the three results are
  printed in this order; and the \<open>catch\<close> handler of the chain is never invoked (nothing is
  printed with \<open>console.error\<close>).
\<close>

theorem chain_resolves:
  "step1 = Fulfilled ''Step 1 completed''
   \<and> chain_steps c = (Fulfilled ''Step 1 completed -> Step 2 completed -> Step 3 completed'',
        c @ [ConsoleLog [''Step 1 completed''], ConsoleLog [''Step 1 completed -> Step 2 completed'']])
   \<and> chain [] = (Fulfilled (),
        [ConsoleLog [''Step 1 completed''], ConsoleLog [''Step 1 completed -> Step 2 completed''],
         ConsoleLog [''Step 1 completed -> Step 2 completed -> Step 3 completed'']])
   \<and> filter is_error_call (snd (chain [])) = []"
  by (simp add: step1_def step2_def step3_def chain_steps_def chain_def then_promise_def
      catch_promise_def is_error_call_def)

section \<open>DataProcessor.fetchData: results\<close>










section \<open>DataStorage: results\<close>

lemma getItems_value_eq: "getItems_value (this, h) = cells h (data this)"
  by (simp add: getItems_value_def getItems_def alloc_def)

lemma getItems_value_addItem: "getItems_value (addItem x s) = getItems_value s @ [x]"
  by (cases s) (simp add: addItem_def getItems_value_eq)

lemma getItems_value_removeItem:
  "getItems_value (removeItem x s) = filter (\<lambda>i. \<not> strict_eq i x) (getItems_value s)"
  by (cases s) (simp add: removeItem_def alloc_def getItems_value_eq)

lemma getItems_value_new: "getItems_value (new_DataStorage h) = []"
  by (simp add: new_DataStorage_def alloc_def getItems_value_eq)

lemma getItems_value_getItems: "getItems_value (snd (getItems s)) = getItems_value s"
  by (cases s) (simp add: getItems_def alloc_def getItems_value_eq)

text \<open>
  C4, as stated, fails for \<open>x = NaN\<close>: \<open>removeItem\<close> keeps the elements \<open>i\<close> with
  \<open>i !== item\<close>, and \<open>NaN !== NaN\<close> holds. A new storage holds no element at all, yet
  after \<open>addItem(NaN)\<close> and \<open>removeItem(NaN)\<close> the result of \<open>getItems()\<close> is \<open>[NaN]\<close> and
  not the empty array it was before.
\<close>

theorem add_then_remove_NaN_counterexample:
  "getItems_value (new_DataStorage empty_heap) = []
   \<and> getItems_value (removeItem JNaN (addItem JNaN (new_DataStorage empty_heap))) = [JNaN]
   \<and> \<not> strict_eq JNaN JNaN"
  by (simp add: getItems_value_removeItem getItems_value_addItem getItems_value_new strict_eq_def)

text \<open>
  C4, amended. For every DataStorage and every \<open>x\<close> other than \<open>NaN\<close> (every \<open>x\<close> with
  \<open>x === x\<close>): if the contents hold no element \<open>e\<close> with \<open>e === x\<close>, then \<open>addItem(x)\<close>
  followed by \<open>removeItem(x)\<close> restores \<open>getItems()\<close> to exactly its previous value. And
  for every \<open>x\<close>, after \<open>removeItem(x)\<close> on any state \<open>getItems()\<close> holds no element \<open>e\<close>
  with \<open>e === x\<close>: every such occurrence is removed, not just one.
\<close>

theorem add_then_remove_restores:
  "(strict_eq x x \<longrightarrow> (\<forall>e \<in> set (getItems_value s). \<not> strict_eq e x)
      \<longrightarrow> getItems_value (removeItem x (addItem x s)) = getItems_value s)
   \<and> (\<forall>e \<in> set (getItems_value (removeItem x s)). \<not> strict_eq e x)"
  by (simp add: getItems_value_removeItem getItems_value_addItem)

theorem add_then_remove_restores_witness:
  "strict_eq (JString ''World'') (JString ''World'')
   \<and> getItems_value (addItem (JString ''Hello'') (new_DataStorage empty_heap)) = [JString ''Hello'']
   \<and> \<not> strict_eq (JString ''Hello'') (JString ''World'')
   \<and> getItems_value (removeItem (JString ''World'') (addItem (JString ''World'')
        (addItem (JString ''Hello'') (new_DataStorage empty_heap)))) = [JString ''Hello'']
   \<and> getItems_value (removeItem (JString ''Hello'') (addItem (JString ''Hello'')
        (addItem (JString ''Hello'') (new_DataStorage empty_heap)))) = []"
  using add_then_remove_restores
      [of "JString ''World''" "addItem (JString ''Hello'') (new_DataStorage empty_heap)"]
    add_then_remove_restores
      [of "JString ''Hello''"
          "addItem (JString ''Hello'') (addItem (JString ''Hello'') (new_DataStorage empty_heap))"]
  by (simp add: getItems_value_removeItem getItems_value_addItem getItems_value_new strict_eq_def)

lemma agree_outside_value: "agree_outside arrays s s' \<Longrightarrow> getItems_value s = getItems_value s'"
  by (cases s; cases s') (simp add: agree_outside_def getItems_value_eq)

lemma agree_outside_addItem:
  "agree_outside arrays s s' \<Longrightarrow> agree_outside arrays (addItem x s) (addItem x s')"
  by (cases s; cases s') (auto simp: agree_outside_def addItem_def)

lemma agree_outside_removeItem:
  "agree_outside arrays s s' \<Longrightarrow> agree_outside arrays (removeItem x s) (removeItem x s')"
  by (cases s; cases s') (auto simp: agree_outside_def removeItem_def alloc_def)

lemma agree_outside_getItems:
  "agree_outside arrays s s' \<Longrightarrow>
     agree_outside (arrays @ [fst (getItems s)]) (snd (getItems s)) (snd (getItems s'))"
  by (cases s; cases s') (auto simp: agree_outside_def getItems_def alloc_def)

lemma agree_outside_write:
  "agree_outside arrays s s' \<Longrightarrow> k < length arrays \<Longrightarrow>
     agree_outside arrays (mutate_array (arrays ! k) ys s) s'"
  by (cases s; cases s') (auto simp: agree_outside_def mutate_array_def)

lemma agree_outside_observe:
  "agree_outside arrays s s' \<Longrightarrow> observe_client arrays steps s = observe (calls_of steps) s'"
proof (induction arrays steps s arbitrary: s' rule: observe_client.induct)
  case (1 arrays s)
  then show ?case by (simp add: agree_outside_value)
next
  case (2 arrays x steps s)
  from "2.prems" have "agree_outside arrays (addItem x s) (addItem x s')"
    by (rule agree_outside_addItem)
  then show ?case using "2.IH" by simp
next
  case (3 arrays x steps s)
  from "3.prems" have "agree_outside arrays (removeItem x s) (removeItem x s')"
    by (rule agree_outside_removeItem)
  then show ?case using "3.IH" by simp
next
  case (4 arrays steps s)
  from "4.prems"
  have "agree_outside (arrays @ [fst (getItems s)]) (snd (getItems s)) (snd (getItems s'))"
    by (rule agree_outside_getItems)
  then have "observe_client (arrays @ [fst (getItems s)]) steps (snd (getItems s))
      = observe (calls_of steps) (snd (getItems s'))"
    by (rule "4.IH")
  with "4.prems" show ?case by (simp add: agree_outside_value)
next
  case (5 arrays k ys steps s)
  have "agree_outside arrays (if k < length arrays then mutate_array (arrays ! k) ys s else s) s'"
    using "5.prems" by (simp add: agree_outside_write)
  then show ?case using "5.IH" by simp
qed

text \<open>Every storage built by the constructor and changed by the methods is well formed.\<close>

lemma storage_ok_new: "storage_ok (new_DataStorage h)"
  by (simp add: storage_ok_def new_DataStorage_def alloc_def)

lemma storage_ok_addItem: "storage_ok s \<Longrightarrow> storage_ok (addItem x s)"
  by (cases s) (simp add: storage_ok_def addItem_def)

lemma storage_ok_removeItem: "storage_ok (removeItem x s)"
  by (cases s) (simp add: storage_ok_def removeItem_def alloc_def)

lemma storage_ok_getItems: "storage_ok s \<Longrightarrow> storage_ok (snd (getItems s))"
  by (cases s) (simp add: storage_ok_def getItems_def alloc_def)

lemma agree_outside_start: "storage_ok s \<Longrightarrow> agree_outside [] s s"
  by (cases s) (simp add: storage_ok_def agree_outside_def)

lemma getItems_frame:
  assumes "storage_ok s"
  shows "fst (snd (getItems s)) = fst s"
    and "cells (snd (snd (getItems s))) (data (fst s)) = cells (snd s) (data (fst s))"
    and "fst (getItems s) \<noteq> data (fst s)"
    and "cells (snd (snd (getItems s))) (fst (getItems s)) = cells (snd s) (data (fst s))"
  using assms by (cases s; simp add: storage_ok_def getItems_def alloc_def)+

text \<open>
  C10. \<open>getItems\<close> returns a defensive copy and does not change the storage. For every
  well-formed state: the call leaves the field \<open>data\<close> and the stored array as they were;
  the array returned is another array than the stored one, with the same elements; a
  second \<open>getItems\<close> returns an equal list; and in every client program, whatever the
  client writes into the arrays that \<open>getItems\<close> has returned, and whenever it does so,
  every call of \<open>getItems\<close>, \<open>addItem\<close> and \<open>removeItem\<close> has the same results as in the
  program without the writes.
\<close>

theorem getItems_defensive_copy:
  assumes "storage_ok s"
  shows "fst (snd (getItems s)) = fst s
    \<and> cells (snd (snd (getItems s))) (data (fst s)) = cells (snd s) (data (fst s))
    \<and> fst (getItems s) \<noteq> data (fst s)
    \<and> cells (snd (snd (getItems s))) (fst (getItems s)) = cells (snd s) (data (fst s))
    \<and> getItems_value (snd (getItems s)) = getItems_value s
    \<and> observe_client [] steps s = observe (calls_of steps) s"
proof -
  have "observe_client [] steps s = observe (calls_of steps) s"
    by (rule agree_outside_observe) (rule agree_outside_start [OF assms])
  then show ?thesis
    using getItems_frame [OF assms] by (simp add: getItems_value_getItems)
qed

lemma hello_calls:
  "observe [GetItems, RemoveItem (JString ''hello''), AddItem (JString ''world''), GetItems]
     (addItem (JString ''hello'') (new_DataStorage empty_heap))
   = [[JString ''hello''], [JString ''world''], [JString ''world'']]"
  by (simp add: getItems_value_getItems getItems_value_addItem getItems_value_removeItem
      getItems_value_new strict_eq_def)

theorem getItems_defensive_copy_witness:
  "storage_ok (addItem (JString ''hello'') (new_DataStorage empty_heap))
   \<and> fst (getItems (addItem (JString ''hello'') (new_DataStorage empty_heap))) = 1
   \<and> data (fst (addItem (JString ''hello'') (new_DataStorage empty_heap))) = 0
   \<and> observe_client []
        [Call GetItems, Call (RemoveItem (JString ''hello'')), Write 0 [JString ''changed''],
         Call (AddItem (JString ''world'')), Call GetItems, Write 1 []]
        (addItem (JString ''hello'') (new_DataStorage empty_heap))
      = [[JString ''hello''], [JString ''world''], [JString ''world'']]"
proof -
  let ?s = "addItem (JString ''hello'') (new_DataStorage empty_heap)"
  have ok: "storage_ok ?s"
    by (intro storage_ok_addItem storage_ok_new)
  have a: "fst (getItems ?s) = 1"
    by (simp add: getItems_def addItem_def new_DataStorage_def alloc_def empty_heap_def)
  have d: "data (fst ?s) = 0"
    by (simp add: addItem_def new_DataStorage_def alloc_def empty_heap_def)
  from getItems_defensive_copy [OF ok,
      of "[Call GetItems, Call (RemoveItem (JString ''hello'')), Write 0 [JString ''changed''],
           Call (AddItem (JString ''world'')), Call GetItems, Write 1 []]"]
  have "observe_client []
        [Call GetItems, Call (RemoveItem (JString ''hello'')), Write 0 [JString ''changed''],
         Call (AddItem (JString ''world'')), Call GetItems, Write 1 []] ?s
      = observe [GetItems, RemoveItem (JString ''hello''), AddItem (JString ''world''), GetItems] ?s"
    by simp
  with hello_calls ok a d show ?thesis by simp
qed

section \<open>createRangeIterator: results\<close>

lemma nexts_finished:
  "end_bound it \<le> current it \<Longrightarrow> nexts k it = replicate k finished"
  by (induction k) (simp_all add: iterator_next_def finished_def)

lemma nexts_safe:
  assumes "- (2 ^ 53) \<le> current it" and "end_bound it \<le> 2 ^ 53"
  shows "nexts k it = map yields (take k [current it..end_bound it - 1])
            @ replicate (k - nat (end_bound it - current it)) finished"
  using assms
proof (induction k arbitrary: it)
  case 0
  then show ?case by simp
next
  case (Suc k)
  show ?case
  proof (cases "current it < end_bound it")
    case False
    then have "[current it..end_bound it - 1] = []" by simp
    moreover from False have "nexts (Suc k) it = replicate (Suc k) finished"
      by (intro nexts_finished) simp
    moreover from False have "nat (end_bound it - current it) = 0" by simp
    ultimately show ?thesis by simp
  next
    case True
    let ?it' = "it\<lparr>current := current it + 1\<rparr>"
    from True Suc.prems have inc: "increment (current it) = current it + 1"
      by (intro increment_exact) simp_all
    have step: "iterator_next it = (yields (current it), ?it')"
      using True by (simp add: iterator_next_def inc yields_def)
    from Suc.prems have "- (2 ^ 53) \<le> current ?it'" "end_bound ?it' \<le> 2 ^ 53" by simp_all
    then have IH: "nexts k ?it' = map yields (take k [current ?it'..end_bound ?it' - 1])
            @ replicate (k - nat (end_bound ?it' - current ?it')) finished"
      by (rule Suc.IH)
    from True have range:
      "[current it..end_bound it - 1] = current it # [current it + 1..end_bound it - 1]"
      by (simp add: upto_rec1)
    from True have count:
      "Suc k - nat (end_bound it - current it) = k - nat (end_bound it - (current it + 1))"
      by simp
    show ?thesis
      using IH by (simp add: step range count del: nexts.simps(2)) (simp add: step)
  qed
qed

text \<open>From \<open>2 ^ 53\<close> the iterator does not move: every call returns the same value.\<close>

lemma nexts_stuck:
  "nexts k (createRangeIterator 9007199254740992 9007199254740994)
     = replicate k (IterResult (Some 9007199254740992) False)"
proof (induction k)
  case 0
  then show ?case by simp
next
  case (Suc k)
  have "iterator_next (createRangeIterator 9007199254740992 9007199254740994)
      = (IterResult (Some 9007199254740992) False,
         createRangeIterator 9007199254740992 9007199254740994)"
    by (simp add: iterator_next_def createRangeIterator_def increment_pow53)
  with Suc show ?case by simp
qed

text \<open>
  C7, as stated, fails for large integers: a number is an IEEE double, and
  \<open>2 ^ 53 + 1\<close> is not one. \<open>createRangeIterator(2 ** 53, 2 ** 53 + 2)\<close> takes two
  integers that are numbers; \<open>current++\<close> leaves \<open>current\<close> at \<open>2 ^ 53\<close>, so every call of
  \<open>next()\<close> returns \<open>{ value: 9007199254740992, done: false }\<close> and \<open>done: true\<close> is never
  reported.
\<close>

theorem range_iterator_large_counterexample:
  "is_double 9007199254740992 \<and> is_double 9007199254740994
   \<and> nexts 3 (createRangeIterator 9007199254740992 9007199254740994)
       = [IterResult (Some 9007199254740992) False, IterResult (Some 9007199254740992) False,
          IterResult (Some 9007199254740992) False]
   \<and> nexts 3 (createRangeIterator 9007199254740992 9007199254740994)
       \<noteq> [IterResult (Some 9007199254740992) False, IterResult (Some 9007199254740993) False,
          IterResult None True]"
  by code_simp

text \<open>
  C7, amended. For all integers \<open>start\<close> and \<open>end\<close> with \<open>start \<ge> end\<close>, and for all
  integers \<open>start\<close> and \<open>end\<close> with \<open>- 2 ^ 53 \<le> start\<close> and \<open>end \<le> 2 ^ 53\<close>, the iterator
  returned by \<open>createRangeIterator(start, end)\<close> produces on successive \<open>next()\<close> calls
  exactly the values \<open>start, start + 1, ..., end - 1\<close> in increasing order, each with
  \<open>done: false\<close>, and from then on reports \<open>done: true\<close>; when \<open>start \<ge> end\<close> the very
  first \<open>next()\<close> already reports \<open>done: true\<close>, whatever the two numbers are.
\<close>

theorem range_iterator_values:
  assumes "end_arg \<le> start \<or> (- (2 ^ 53) \<le> start \<and> end_arg \<le> 2 ^ 53)"
  shows "nexts (nat (end_arg - start) + m) (createRangeIterator start end_arg)
           = map (\<lambda>v. IterResult (Some v) False) [start..end_arg - 1]
               @ replicate m (IterResult None True)
         \<and> (end_arg \<le> start \<longrightarrow>
              fst (iterator_next (createRangeIterator start end_arg)) = IterResult None True)"
proof -
  have first: "end_arg \<le> start \<longrightarrow>
      fst (iterator_next (createRangeIterator start end_arg)) = IterResult None True"
    by (simp add: createRangeIterator_def iterator_next_def)
  have "nexts (nat (end_arg - start) + m) (createRangeIterator start end_arg)
      = map yields [start..end_arg - 1] @ replicate m finished"
  proof (cases "end_arg \<le> start")
    case True
    then have "nexts (nat (end_arg - start) + m) (createRangeIterator start end_arg)
        = replicate (nat (end_arg - start) + m) finished"
      by (intro nexts_finished) (simp add: createRangeIterator_def)
    with True show ?thesis by simp
  next
    case False
    with assms have safe: "- (2 ^ 53) \<le> start" "end_arg \<le> 2 ^ 53" by simp_all
    have len: "length [start..end_arg - 1] = nat (end_arg - start)" by simp
    have "nexts (nat (end_arg - start) + m) (createRangeIterator start end_arg)
        = map yields (take (nat (end_arg - start) + m) [start..end_arg - 1])
            @ replicate (nat (end_arg - start) + m - nat (end_arg - start)) finished"
      using nexts_safe [of "createRangeIterator start end_arg" "nat (end_arg - start) + m"] safe
      by (simp add: createRangeIterator_def)
    then show ?thesis using len by simp
  qed
  with first show ?thesis
    by (simp add: yields_def [abs_def] finished_def)
qed

theorem range_iterator_values_witness:
  "- (2 ^ 53) \<le> (1::int) \<and> (4::int) \<le> 2 ^ 53
   \<and> nexts 4 (createRangeIterator 1 4)
       = [IterResult (Some 1) False, IterResult (Some 2) False, IterResult (Some 3) False,
          IterResult None True]
   \<and> (- 2305843009213693952::int) \<le> - 1152921504606846976
   \<and> nexts 2 (createRangeIterator (- 1152921504606846976) (- 2305843009213693952))
       = [IterResult None True, IterResult None True]
   \<and> fst (iterator_next (createRangeIterator (- 1152921504606846976) (- 2305843009213693952)))
       = IterResult None True"
  using range_iterator_values [of 4 1 1]
    range_iterator_values [of "- 2305843009213693952" "- 1152921504606846976" 2]
  by (simp add: upto_rec1 numeral_2_eq_2)

end
